theory Spec2Isabelle
  imports Complex_Main "HOL-Library.AList" "HOL-Library.Multiset" "HOL-Library.Log_Nat"
begin

section \<open>Data model of \<open>program/scrapers/__init__.py\<close>\<close>

text \<open>
  The module \<open>program.scrapers\<close> holds the class \<open>Scraping\<close>. It reads and writes a few
  attributes of media items, asks every initialised scraper service for results in a
  thread of its own, merges what they return and hands the merged dictionary to
  \<open>_parse_results\<close>. The classes of \<open>program.media\<close>, the services and \<open>_parse_results\<close>
  live in other modules; what the code below needs of them is a field or a parameter here.
\<close>

subsection \<open>Python numbers\<close>

text \<open>
  The module compares two Python numbers: the seconds elapsed since the last scrape, a
  \<open>float\<close>, and the interval of the tier, an \<open>int\<close> or a \<open>float\<close>. A Python \<open>float\<close> is an
  IEEE 754 double: a rational with a 53 bit significand, an infinity or a NaN (the sign of
  zero plays no part in a comparison and is not kept).
\<close>

datatype double = Finite rat | PosInf | NegInf | NaN

datatype number = PyInt int | PyFloat double

text \<open>
  Rounding to the nearest double, ties to even. For \<open>x > 0\<close> with
  \<open>2^k \<le> x < 2^(k+1)\<close> the doubles around \<open>x\<close> are the multiples of \<open>2^(k-52)\<close>, and
  of \<open>2^(-1074)\<close> in the subnormal range; a result of \<open>2^1024\<close> or more overflows to
  infinity.
\<close>

definition floor_log2 :: "rat \<Rightarrow> int" where
  "floor_log2 x =
     (if 1 \<le> x then int (floorlog 2 (nat \<lfloor>x\<rfloor>)) - 1
      else - int (floorlog 2 (nat (\<lceil>1 / x\<rceil> - 1))))"

definition round_half_even :: "rat \<Rightarrow> int" where
  "round_half_even x =
     (let f = \<lfloor>x\<rfloor>; r = x - of_int f
      in if r < 1 / 2 then f else if 1 / 2 < r then f + 1 else if even f then f else f + 1)"

definition double_exponent :: "rat \<Rightarrow> int" where
  "double_exponent x = max (floor_log2 x - 52) (- 1074)"

definition round_pos :: "rat \<Rightarrow> rat" where
  "round_pos x =
     (let q = double_exponent x
      in of_int (round_half_even (x / 2 powi q)) * 2 powi q)"

definition round_signed :: "rat \<Rightarrow> rat" where
  "round_signed x = (if x = 0 then 0 else if 0 < x then round_pos x else - round_pos (- x))"

definition round_double :: "rat \<Rightarrow> double" where
  "round_double x =
     (let r = round_signed x
      in if 2 powi 1024 \<le> r then PosInf
         else if r \<le> - (2 powi 1024) then NegInf
         else Finite r)"

text \<open>
  \<open>x > y\<close> for two floats is the IEEE comparison (false when either is a NaN); for a float
  and an int Python compares the exact values.
\<close>

fun double_gt :: "double \<Rightarrow> double \<Rightarrow> bool" where
  "double_gt NaN y = False"
| "double_gt x NaN = False"
| "double_gt PosInf PosInf = False"
| "double_gt PosInf y = True"
| "double_gt NegInf y = False"
| "double_gt (Finite a) PosInf = False"
| "double_gt (Finite a) NegInf = True"
| "double_gt (Finite a) (Finite b) = (b < a)"

fun double_gt_int :: "double \<Rightarrow> int \<Rightarrow> bool" where
  "double_gt_int (Finite a) n = (of_int n < a)"
| "double_gt_int PosInf n = True"
| "double_gt_int NegInf n = False"
| "double_gt_int NaN n = False"

fun py_gt :: "double \<Rightarrow> number \<Rightarrow> bool" where
  "py_gt x (PyInt n) = double_gt_int x n"
| "py_gt x (PyFloat d) = double_gt x d"

text \<open>
  \<open>v * 60\<close>: exact for an \<open>int\<close>; for a \<open>float\<close> the product with \<open>60.0\<close>, rounded to a
  double (an infinity or a NaN stays what it is).
\<close>

fun times_60 :: "number \<Rightarrow> number" where
  "times_60 (PyInt n) = PyInt (n * 60)"
| "times_60 (PyFloat (Finite a)) = PyFloat (round_double (a * 60))"
| "times_60 (PyFloat d) = PyFloat d"

subsection \<open>Time\<close>

text \<open>
  A \<open>datetime\<close> has microsecond resolution: it is the number of microseconds on the time
  line, and the difference of two of them is a \<open>timedelta\<close>. \<open>timedelta.total_seconds()\<close>
  divides that number by \<open>10^6\<close> and returns the double nearest to the quotient.
\<close>

type_synonym datetime = int
type_synonym timedelta = int

definition total_seconds :: "timedelta \<Rightarrow> double" where
  "total_seconds d = round_double (of_int d / 1000000)"

subsection \<open>Settings\<close>

text \<open>
  \<open>settings_manager.settings.scraping\<close> with its three multipliers (hours), each a
  Python number, and \<open>settings_manager.settings.debug\<close>. The values are read, never
  written.
\<close>

record ScraperModel =
  after_2 :: number
  after_5 :: number
  after_10 :: number

record AppModel =
  debug :: bool
  scraping :: ScraperModel

subsection \<open>Streams and media items\<close>

text \<open>
  Modelled from the spec: the lifecycle tags of \<open>program.media.state.States\<close> (the enum is
  not part of this module). The code names \<open>Completed\<close> and \<open>PartiallyCompleted\<close> only;
  every other tag is one of the remaining constructors.
\<close>

datatype States = Requested | Completed | PartiallyCompleted | OtherState string

text \<open>
  A \<open>Stream\<close> carries the four attributes the module prints: \<open>infohash\<close>, \<open>raw_title\<close>,
  \<open>parsed_title\<close> and \<open>rank\<close>.
\<close>

record Stream =
  infohash :: string
  raw_title :: string
  parsed_title :: string
  rank :: int

text \<open>
  Modelled from the spec: equality of two \<open>Stream\<close> objects (\<open>Stream.__eq__\<close> belongs to
  \<open>program.media.stream\<close>, which is not part of this module). The spec identifies a
  stream by its dedup key, the infohash: "append any stream whose dedupKey is not already
  present".
\<close>

definition stream_eq :: "Stream \<Rightarrow> Stream \<Rightarrow> bool" where
  "stream_eq s t = (infohash s = infohash t)"

text \<open>
  \<open>MediaItem\<close> is the base class; \<open>Movie\<close> and \<open>Episode\<close> add nothing this module reads,
  \<open>Season\<close> adds its episodes and \<open>Show\<close> its seasons. \<open>is_released\<close> is a property of the
  item that the module only reads. Functions that use the common attributes alone are
  defined on the record scheme, so they apply to every subclass.
\<close>

record MediaItem =
  state :: States
  last_state :: States
  is_released :: bool
  scraped_at :: "datetime option"
  scraped_times :: int
  streams :: "Stream list"

type_synonym Movie = MediaItem
type_synonym Episode = MediaItem

record Season = MediaItem +
  episodes :: "Episode list"

record Show = MediaItem +
  seasons :: "Season list"

text \<open>The union \<open>Union[Show, Season, Episode, Movie]\<close>, one constructor per \<open>isinstance\<close> test.\<close>

datatype item = AMovie Movie | AShow Show | ASeason Season | AnEpisode Episode

section \<open>The backoff policy and the eligibility test\<close>

text \<open>
  \<open>should_submit\<close> first picks \<open>scrape_time\<close> (seconds) from the attempt counter by an
  \<open>if\<close>/\<open>elif\<close> chain, then reads the clock once. \<open>now\<close> is that clock reading.
  A \<open>datetime\<close> object is always truthy, so \<open>not item.scraped_at\<close> holds exactly for \<open>None\<close>.
\<close>

definition scrape_time :: "ScraperModel \<Rightarrow> int \<Rightarrow> number" where
  "scrape_time st n =
     (if n \<ge> 2 \<and> n \<le> 5 then times_60 (times_60 (after_2 st))
      else if n > 5 \<and> n \<le> 10 then times_60 (times_60 (after_5 st))
      else if n > 10 then times_60 (times_60 (after_10 st))
      else PyInt (5 * 60))"

definition should_submit :: "ScraperModel \<Rightarrow> datetime \<Rightarrow> 'a MediaItem_scheme \<Rightarrow> bool" where
  "should_submit st now item =
     (case scraped_at item of
        None \<Rightarrow> True
      | Some t0 \<Rightarrow> py_gt (total_seconds (now - t0)) (scrape_time st (scraped_times item)))"

text \<open>
  The messages the module hands to the logger. Only what a message is about is kept, not
  its wording.
\<close>

datatype log_msg =
    NotReleased
  | BackingOff
  | NotFound
  | RemovedDuplicates nat int
  | Parsed Stream

definition can_we_scrape :: "ScraperModel \<Rightarrow> datetime \<Rightarrow> 'a MediaItem_scheme \<Rightarrow> bool" where
  "can_we_scrape st now item =
     (if \<not> is_released item then False
      else if \<not> should_submit st now item then False
      else True)"

text \<open>The debug message \<open>can_we_scrape\<close> logs on the branch it returns \<open>False\<close> from.\<close>

definition can_we_scrape_log :: "ScraperModel \<Rightarrow> datetime \<Rightarrow> 'a MediaItem_scheme \<Rightarrow> log_msg list" where
  "can_we_scrape_log st now item =
     (if \<not> is_released item then [NotReleased]
      else if \<not> should_submit st now item then [BackingOff]
      else [])"

section \<open>The hierarchy walker\<close>

text \<open>The attributes of the base class that every variant of the union carries.\<close>

fun media :: "item \<Rightarrow> MediaItem" where
  "media (AMovie m) = m"
| "media (AShow sh) = MediaItem.truncate sh"
| "media (ASeason se) = MediaItem.truncate se"
| "media (AnEpisode e) = e"

text \<open>
  \<open>partial_state\<close> returns \<open>False\<close>, a list of seasons and episodes, or the item it was
  given: the three return statements are the three constructors.
\<close>

datatype partial = ReturnsFalse | ReturnsList "item list" | ReturnsItem item

text \<open>
  The body of the loop \<open>for s in sres\<close>: a season all of whose episodes are released and
  not completed is appended itself, otherwise its released, not completed episodes are.
\<close>

definition partial_step :: "Season \<Rightarrow> item list \<Rightarrow> item list" where
  "partial_step s res =
     (if list_all (\<lambda>episode. is_released episode \<and> state episode \<noteq> Completed) (episodes s)
      then res @ [ASeason s]
      else res @ map AnEpisode
             (filter (\<lambda>e. is_released e \<and> state e \<noteq> Completed) (episodes s)))"

text \<open>
  The clock readings that \<open>can_we_scrape\<close> and \<open>should_submit\<close> take while one call of
  \<open>partial_state\<close> runs are the one instant \<open>now\<close>.
\<close>

definition partial_state :: "ScraperModel \<Rightarrow> datetime \<Rightarrow> item \<Rightarrow> partial" where
  "partial_state st now it =
     (if last_state (media it) \<noteq> PartiallyCompleted \<or> can_we_scrape st now (media it)
      then ReturnsFalse
      else case it of
          AShow sh \<Rightarrow>
            (let sres = filter (\<lambda>s. state s \<noteq> Completed \<and> is_released s
                                     \<and> should_submit st now s) (seasons sh)
             in ReturnsList (fold partial_step sres []))
        | ASeason se \<Rightarrow> ReturnsList (map AnEpisode (filter is_released (episodes se)))
        | _ \<Rightarrow> ReturnsItem it)"

section \<open>Fan-out, merge and submission\<close>

subsection \<open>Services, the ranker and dictionaries\<close>

text \<open>
  An exception is a value. A call that may raise returns \<open>exn + 'a\<close>, \<open>Inl\<close> for the
  exception.
\<close>

datatype exn = Exn string

text \<open>
  A Python \<open>dict\<close> keeps its keys in insertion order: it is an association list with
  distinct keys. \<open>d.update(other)\<close> stores the pairs of \<open>other\<close> one by one; a key that
  \<open>d\<close> holds keeps its position and takes the new value, a new key goes to the end.
\<close>

type_synonym ('k, 'v) dict = "('k \<times> 'v) list"

definition dict_update :: "('k, 'v) dict \<Rightarrow> ('k, 'v) dict \<Rightarrow> ('k, 'v) dict" where
  "dict_update d other = fold (\<lambda>(k, v). AList.update k v) other d"

text \<open>
  A scraper service, as far as \<open>Scraping\<close> uses it: its class name, its \<open>initialized\<close>
  flag and its method \<open>run\<close>, which returns a dictionary from infohash to raw title or
  raises. The service classes are defined in modules of their own, so \<open>run\<close> is a
  parameter.
\<close>

record 'i Service =
  service_name :: string
  initialized :: bool
  service_run :: "'i \<Rightarrow> exn + (string, string) dict"

text \<open>
  What a \<open>Scraping\<close> object works with: the application settings, its services in the
  order of the dictionary \<open>self.services\<close>, and the function \<open>_parse_results\<close> of
  \<open>program.scrapers.shared\<close>, which ranks the merged results or raises (a parameter, for
  the same reason).
\<close>

record 'i Scraping =
  settings :: AppModel
  services :: "'i Service list"
  parse_results :: "'i \<Rightarrow> (string, string) dict \<Rightarrow> bool \<Rightarrow> exn + (string, Stream) dict"

subsection \<open>\<open>scrape\<close>\<close>

text \<open>
  The body of a worker thread, \<open>run_service\<close>, applied to what \<open>service.run(item)\<close> did.
  When the call returned, the thread takes the lock, merges the returned dictionary into
  \<open>results\<close> and adds its size to \<open>total_results\<close>. When the call raised, the exception
  leaves \<open>run_service\<close> before the lock is taken: the thread ends, the shared state is
  as it was, and the exception goes to the thread exception hook of the interpreter,
  never to the thread that joins.
\<close>

fun run_service ::
  "exn + (string, string) dict \<Rightarrow> (string, string) dict \<times> nat \<Rightarrow> (string, string) dict \<times> nat"
where
  "run_service (Inr service_results) (results, total_results) =
     (dict_update results service_results, total_results + length service_results)"
| "run_service (Inl e) (results, total_results) = (results, total_results)"

text \<open>
  What one call of \<open>scrape\<close> does: the value it returns or the exception it raises
  (\<open>sorted_streams\<close>), the merged dictionary it handed to \<open>_parse_results\<close> and the count
  of offered pairs, the messages it logged, the threads it started (each calls \<open>run\<close> of
  its service once), and the exceptions that ended a worker thread.
\<close>

record scrape_result =
  sorted_streams :: "exn + (string, Stream) dict"
  results :: "(string, string) dict"
  total_results :: nat
  scrape_log :: "log_msg list"
  started :: "string list"
  thread_exceptions :: "(string \<times> exn) list"

text \<open>
  The lock serialises the merges, in an order the scheduler picks: \<open>sched\<close> arranges the
  started threads in the order in which they reach the lock. It is a rearrangement of
  its argument (\<open>mset (sched ts) = mset ts\<close>); the theorems that need this say so.
  The message about duplicates is logged when the two counts differ, whatever the
  parameter \<open>log\<close> (here \<open>logging\<close>) is; the ten best streams are logged when it and the
  debug setting are on.
\<close>

definition scrape ::
  "'i Scraping \<Rightarrow> ('i Service list \<Rightarrow> 'i Service list) \<Rightarrow> 'i \<Rightarrow> bool \<Rightarrow> scrape_result"
where
  "scrape env sched item logging =
     (let threads = filter initialized (services env);
          outcomes = map (\<lambda>service. (service_name service, service_run service item))
                       (sched threads);
          merged = fold run_service (map snd outcomes) ([], 0);
          duplicates =
            (if int (snd merged) \<noteq> int (length (fst merged))
             then [RemovedDuplicates (snd merged) (int (snd merged) - int (length (fst merged)))]
             else []);
          ranked = parse_results env item (fst merged) logging
      in \<lparr>sorted_streams = ranked,
          results = fst merged,
          total_results = snd merged,
          scrape_log =
            (case ranked of
               Inl e \<Rightarrow> duplicates
             | Inr streams_by_hash \<Rightarrow>
                 duplicates @
                 (if streams_by_hash \<noteq> [] \<and> (logging \<and> debug (settings env))
                  then map Parsed (take 10 (map snd streams_by_hash)) else [])),
          started = map service_name threads,
          thread_exceptions =
            concat (map (\<lambda>(n, r). case r of Inl e \<Rightarrow> [(n, e)] | Inr d \<Rightarrow> []) outcomes)\<rparr>)"

subsection \<open>\<open>run\<close>\<close>

text \<open>
  \<open>stream not in item.streams\<close> compares the stream with every element of the list;
  the loop of \<open>run\<close> appends a stream for which the test holds.
\<close>

definition stream_in :: "Stream \<Rightarrow> Stream list \<Rightarrow> bool" where
  "stream_in stream xs = list_ex (\<lambda>t. stream_eq t stream) xs"

definition append_new :: "Stream \<Rightarrow> Stream list \<Rightarrow> Stream list" where
  "append_new stream xs = (if \<not> stream_in stream xs then xs @ [stream] else xs)"

text \<open>
  What one call of \<open>run\<close> does, the generator driven to its end: it yields the item or
  raises (\<open>yielded\<close>); \<open>item_after\<close> is the state of the item object when the call is
  over, whichever way it ended; then the messages logged, the threads started and the
  exceptions that ended a worker thread.
\<close>

record 'i run_result =
  yielded :: "exn + 'i"
  item_after :: 'i
  run_log :: "log_msg list"
  run_started :: "string list"
  run_thread_exceptions :: "(string \<times> exn) list"

text \<open>
  \<open>now\<close> is the clock reading of \<open>can_we_scrape\<close>, \<open>now'\<close> the one stored in \<open>scraped_at\<close> once the
  scrape is over. An exception of \<open>scrape\<close> leaves \<open>run\<close> at once: the item is as it was.
\<close>

definition run ::
  "'a MediaItem_scheme Scraping \<Rightarrow>
   ('a MediaItem_scheme Service list \<Rightarrow> 'a MediaItem_scheme Service list) \<Rightarrow>
   datetime \<Rightarrow> datetime \<Rightarrow> 'a MediaItem_scheme \<Rightarrow> 'a MediaItem_scheme run_result"
where
  "run env sched now now' item =
     (if can_we_scrape (scraping (settings env)) now item then
        (let sc = scrape env sched item True in
         case sorted_streams sc of
           Inl e \<Rightarrow>
             \<lparr>yielded = Inl e, item_after = item, run_log = scrape_log sc,
              run_started = started sc, run_thread_exceptions = thread_exceptions sc\<rparr>
         | Inr streams_by_hash \<Rightarrow>
             (let item1 = item\<lparr>streams := fold append_new (map snd streams_by_hash) (streams item)\<rparr>;
                  item2 = item1\<lparr>scraped_at := Some now'\<rparr>;
                  item3 = item2\<lparr>scraped_times := scraped_times item2 + 1\<rparr>
              in \<lparr>yielded = Inr item3, item_after = item3,
                  run_log = scrape_log sc @ (if streams item3 = [] then [NotFound] else []),
                  run_started = started sc,
                  run_thread_exceptions = thread_exceptions sc\<rparr>))
      else
        \<lparr>yielded = Inr item, item_after = item,
         run_log = can_we_scrape_log (scraping (settings env)) now item
                   @ (if streams item = [] then [NotFound] else []),
         run_started = [], run_thread_exceptions = []\<rparr>)"

section \<open>Example data\<close>

text \<open>
  Concrete settings and items on which the theorems below are exercised: the default
  multipliers, leaves that were never scraped, and a show that was scraped at instant 0
  for the first time, so that one minute later it is still backing off.
\<close>

definition example_settings :: ScraperModel where
  "example_settings = \<lparr>after_2 = PyInt 2, after_5 = PyInt 6, after_10 = PyInt 24\<rparr>"

definition example_leaf :: "States \<Rightarrow> bool \<Rightarrow> MediaItem" where
  "example_leaf s r =
     \<lparr>state = s, last_state = s, is_released = r, scraped_at = None, scraped_times = 0,
      streams = []\<rparr>"

definition example_scraped :: "States \<Rightarrow> MediaItem" where
  "example_scraped s =
     \<lparr>state = s, last_state = s, is_released = True, scraped_at = Some 0, scraped_times = 1,
      streams = []\<rparr>"

definition example_season :: "Episode list \<Rightarrow> Season" where
  "example_season es =
     \<lparr>state = Requested, last_state = Requested, is_released = True, scraped_at = None,
      scraped_times = 0, streams = [], episodes = es\<rparr>"

definition example_season_A :: Season where
  "example_season_A = example_season [example_leaf Requested True, example_leaf Requested True]"

definition example_season_B :: Season where
  "example_season_B =
     example_season [example_leaf Completed True, example_leaf Requested True,
                     example_leaf Requested False]"

definition example_show :: Show where
  "example_show =
     \<lparr>state = PartiallyCompleted, last_state = PartiallyCompleted, is_released = True,
      scraped_at = Some 0, scraped_times = 1, streams = [],
      seasons = [example_season_A, example_season_B]\<rparr>"

definition example_partial_season :: Season where
  "example_partial_season =
     \<lparr>state = PartiallyCompleted, last_state = PartiallyCompleted, is_released = True,
      scraped_at = Some 0, scraped_times = 1, streams = [],
      episodes = [example_leaf Completed True, example_leaf Requested True,
                  example_leaf Requested False]\<rparr>"

text \<open>
  Services that return a fixed answer, a ranker that keeps the order of the merged
  dictionary and one that raises, and two registries: one in which the two initialised
  services offer the same infohash, one with three initialised services of which the
  second raises.
\<close>

definition example_service :: "string \<Rightarrow> bool \<Rightarrow> exn + (string, string) dict \<Rightarrow> MediaItem Service" where
  "example_service n i r = \<lparr>service_name = n, initialized = i, service_run = (\<lambda>item. r)\<rparr>"

definition example_ranker :: "MediaItem \<Rightarrow> (string, string) dict \<Rightarrow> bool \<Rightarrow> exn + (string, Stream) dict" where
  "example_ranker item rs logging =
     Inr (map (\<lambda>(h, t). (h, \<lparr>infohash = h, raw_title = t, parsed_title = t, rank = 0\<rparr>)) rs)"

definition failing_ranker :: "MediaItem \<Rightarrow> (string, string) dict \<Rightarrow> bool \<Rightarrow> exn + (string, Stream) dict" where
  "failing_ranker item rs logging = Inl (Exn ''ranking failed'')"

definition example_env :: "MediaItem Service list \<Rightarrow> MediaItem Scraping" where
  "example_env svcs =
     \<lparr>settings = \<lparr>debug = False, scraping = example_settings\<rparr>, services = svcs,
      parse_results = example_ranker\<rparr>"

definition example_two :: "MediaItem Service list" where
  "example_two =
     [example_service ''Torrentio'' True (Inr [(''X'', ''first title'')]),
      example_service ''Jackett'' False (Inr [(''Y'', ''ignored'')]),
      example_service ''Zilean'' True (Inr [(''X'', ''second title'')])]"

definition example_three :: "MediaItem Service list" where
  "example_three =
     [example_service ''Torrentio'' True (Inr [(''A'', ''one''), (''B'', ''two'')]),
      example_service ''Knightcrawler'' True (Inl (Exn ''connection refused'')),
      example_service ''Zilean'' True (Inr [(''C'', ''three'')])]"

text \<open>
  A registry whose two services offer the same infohash under different titles, with a
  ranker that keeps the results titled \<open>good\<close> only.
\<close>

definition title_ranker ::
  "MediaItem \<Rightarrow> (string, string) dict \<Rightarrow> bool \<Rightarrow> exn + (string, Stream) dict" where
  "title_ranker item rs logging =
     Inr (map (\<lambda>(h, t). (h, \<lparr>infohash = h, raw_title = t, parsed_title = t, rank = 0\<rparr>))
            (filter (\<lambda>(h, t). t = ''good'') rs))"

definition example_conflict :: "MediaItem Scraping" where
  "example_conflict =
     \<lparr>settings = \<lparr>debug = False, scraping = example_settings\<rparr>,
      services = [example_service ''Torrentio'' True (Inr [(''X'', ''good'')]),
                  example_service ''Zilean'' True (Inr [(''X'', ''bad'')])],
      parse_results = title_ranker\<rparr>"

lemmas env_defs = example_service_def example_ranker_def failing_ranker_def example_env_def
  example_two_def example_three_def

lemmas example_defs =
  example_settings_def example_leaf_def example_scraped_def example_season_def
  example_season_A_def example_season_B_def example_show_def example_partial_season_def

section \<open>Properties of rounding to a double\<close>

text \<open>
  The exponent found by \<open>floor_log2\<close> is the right one, rounding is monotone, it is exact
  on integers below \<open>2^53\<close>, and it moves a value below \<open>2^34\<close> by at most \<open>2^(-20)\<close>,
  less than a microsecond.
\<close>

lemma pow2_pos [simp]: "0 < (2::rat) powi e"
  by simp

lemma floor_log2_bounds:
  assumes "0 < x"
  shows "2 powi (floor_log2 x) \<le> x \<and> x < 2 powi (floor_log2 x + 1)"
proof (cases "1 \<le> x")
  case True
  define n where "n = nat \<lfloor>x\<rfloor>"
  define b where "b = floorlog 2 n"
  from True have n1: "1 \<le> n" by (simp add: n_def le_nat_iff le_floor_iff)
  then have bnd: "2 ^ (b - 1) \<le> n \<and> n < 2 ^ b"
    unfolding b_def using floorlog_bounds [of n 2] by simp
  from n1 have b1: "1 \<le> b" unfolding b_def
    by (metis One_nat_def Suc_leI floorlog_eq_zero_iff not_gr_zero not_less_eq_eq one_less_numeral_iff semiring_norm(76) zero_less_one)
  have fl: "floor_log2 x = int b - 1" using True by (simp add: floor_log2_def n_def b_def)
  have nx: "of_nat n \<le> x" "x < of_nat n + 1"
    using True floor_correct [of x] by (simp_all add: n_def)
  have p1: "(2::rat) powi (int b - 1) = 2 ^ (b - 1)"
  proof -
    have "int b - 1 = int (b - 1)" using b1 by simp
    then show ?thesis by (simp only: power_int_of_nat)
  qed
  have p2: "(2::rat) powi (int b - 1 + 1) = 2 ^ b"
    by (simp add: power_int_of_nat)
  have a: "(2::rat) ^ (b - 1) \<le> of_nat n"
    using bnd by (metis of_nat_le_iff of_nat_numeral of_nat_power)
  have c: "(of_nat n :: rat) + 1 \<le> 2 ^ b"
  proof -
    from bnd have "n + 1 \<le> 2 ^ b" by simp
    then have "(of_nat (n + 1) :: rat) \<le> of_nat (2 ^ b)" by (simp only: of_nat_le_iff)
    then show ?thesis by simp
  qed
  from a nx(1) have "(2::rat) ^ (b - 1) \<le> x" by (rule order_trans)
  moreover from nx(2) c have "x < 2 ^ b" by (rule less_le_trans)
  ultimately show ?thesis unfolding fl p1 p2 by (rule conjI)
next
  case False
  define n where "n = nat (\<lceil>1 / x\<rceil> - 1)"
  define m where "m = floorlog 2 n"
  from False assms have inv: "1 < 1 / x" by simp
  then have c2: "2 \<le> \<lceil>1 / x\<rceil>" by (simp add: le_ceiling_iff)
  then have n1: "1 \<le> n" unfolding n_def by linarith
  then have bnd: "2 ^ (m - 1) \<le> n \<and> n < 2 ^ m"
    unfolding m_def using floorlog_bounds [of n 2] by simp
  from n1 have m1: "1 \<le> m" unfolding m_def
    by (metis One_nat_def Suc_leI floorlog_eq_zero_iff not_gr_zero not_less_eq_eq one_less_numeral_iff semiring_norm(76) zero_less_one)
  have fl: "floor_log2 x = - int m" using False by (simp add: floor_log2_def n_def m_def)
  have nn: "int n = \<lceil>1 / x\<rceil> - 1" using c2 unfolding n_def by linarith
  have lo: "(of_nat n :: rat) < 1 / x"
  proof -
    have "of_int (\<lceil>1 / x\<rceil> - 1) < 1 / x" using ceiling_correct [of "1 / x"] by simp
    with nn show ?thesis by (metis of_int_of_nat_eq)
  qed
  have hi: "1 / x \<le> of_nat n + 1"
  proof -
    have "1 / x \<le> of_int \<lceil>1 / x\<rceil>" by (rule le_of_int_ceiling)
    also have "\<dots> = of_int (int n + 1)" using nn by simp
    finally show ?thesis by simp
  qed
  have a: "(2::rat) ^ (m - 1) \<le> of_nat n"
    using bnd by (metis of_nat_le_iff of_nat_numeral of_nat_power)
  have b: "(of_nat n :: rat) + 1 \<le> 2 ^ m"
  proof -
    from bnd have "n + 1 \<le> 2 ^ m" by simp
    then have "(of_nat (n + 1) :: rat) \<le> of_nat (2 ^ m)" by (simp only: of_nat_le_iff)
    then show ?thesis by simp
  qed
  from hi b have "1 / x \<le> 2 ^ m" by (rule order_trans)
  with assms have lower: "1 / 2 ^ m \<le> x"
    by (simp add: field_simps)
  from a lo have "2 ^ (m - 1) < 1 / x" by (rule le_less_trans)
  with assms have upper: "x < 1 / 2 ^ (m - 1)"
    by (simp add: field_simps)
  have p1: "(2::rat) powi (- int m) = 1 / 2 ^ m"
    by (simp add: power_int_minus power_int_of_nat field_simps)
  have p2: "(2::rat) powi (- int m + 1) = 1 / 2 ^ (m - 1)"
  proof -
    have "- int m + 1 = - int (m - 1)" using m1 by simp
    then have "(2::rat) powi (- int m + 1) = 2 powi (- int (m - 1))" by (rule arg_cong)
    also have "\<dots> = 1 / 2 ^ (m - 1)"
      by (simp only: power_int_minus power_int_of_nat inverse_eq_divide)
    finally show ?thesis .
  qed
  from lower upper show ?thesis unfolding fl p1 p2 by (rule conjI)
qed

lemma floor_log2_less:
  assumes "0 < x" and "x < 2 powi n"
  shows "floor_log2 x < n"
proof (rule ccontr)
  assume "\<not> floor_log2 x < n"
  then have "n \<le> floor_log2 x" by simp
  then have "(2::rat) powi n \<le> 2 powi (floor_log2 x)"
    by (rule power_int_increasing) simp
  also have "\<dots> \<le> x" using floor_log2_bounds [OF assms(1)] by simp
  finally show False using assms(2) by simp
qed

lemma floor_log2_ge:
  assumes "0 < x" and "2 powi n \<le> x"
  shows "n \<le> floor_log2 x"
proof (rule ccontr)
  assume "\<not> n \<le> floor_log2 x"
  then have "floor_log2 x + 1 \<le> n" by simp
  then have "(2::rat) powi (floor_log2 x + 1) \<le> 2 powi n"
    by (rule power_int_increasing) simp
  with floor_log2_bounds [OF assms(1)] have "x < 2 powi n" by simp
  with assms(2) show False by simp
qed

lemma floor_log2_mono:
  assumes "0 < x" and "x \<le> y"
  shows "floor_log2 x \<le> floor_log2 y"
proof -
  from assms have y: "0 < y" by simp
  have "2 powi (floor_log2 x) \<le> x" using floor_log2_bounds [OF assms(1)] by simp
  with assms(2) have "2 powi (floor_log2 x) \<le> y" by simp
  with y show ?thesis by (rule floor_log2_ge)
qed

lemma round_half_even_error: "\<bar>of_int (round_half_even x) - x\<bar> \<le> 1 / 2"
  using floor_correct [of x]
  by (auto simp add: round_half_even_def Let_def abs_le_iff)

lemma round_half_even_of_int [simp]: "round_half_even (of_int n) = n"
  by (simp add: round_half_even_def)

lemma round_half_even_mono:
  assumes "x \<le> y"
  shows "round_half_even x \<le> round_half_even y"
proof (rule ccontr)
  assume "\<not> round_half_even x \<le> round_half_even y"
  then have lt: "round_half_even y + 1 \<le> round_half_even x" by simp
  then have "(of_int (round_half_even y) :: rat) + 1 \<le> of_int (round_half_even x)"
    by (metis of_int_1 of_int_add of_int_le_iff)
  moreover have "of_int (round_half_even x) - x \<le> 1 / 2"
    using round_half_even_error [of x] by linarith
  moreover have "y - of_int (round_half_even y) \<le> 1 / 2"
    using round_half_even_error [of y] by linarith
  ultimately have "y \<le> x" by linarith
  with assms have "x = y" by simp
  with lt show False by simp
qed

lemma double_exponent_mono:
  "0 < x \<Longrightarrow> x \<le> y \<Longrightarrow> double_exponent x \<le> double_exponent y"
  using floor_log2_mono [of x y] by (simp add: double_exponent_def)

lemma round_pos_nonneg:
  assumes "0 < x"
  shows "0 \<le> round_pos x"
proof -
  have "0 \<le> x / 2 powi (double_exponent x)" using assms by simp
  then have "round_half_even 0 \<le> round_half_even (x / 2 powi (double_exponent x))"
    by (rule round_half_even_mono)
  then have "0 \<le> round_half_even (x / 2 powi (double_exponent x))"
    using round_half_even_of_int [of 0] by simp
  then show ?thesis by (simp add: round_pos_def Let_def)
qed

lemma round_pos_error:
  assumes "0 < x"
  shows "\<bar>round_pos x - x\<bar> \<le> 2 powi (double_exponent x) / 2"
proof -
  let ?q = "double_exponent x"
  let ?m = "round_half_even (x / 2 powi ?q)"
  have p: "0 < (2::rat) powi ?q" by simp
  have "round_pos x - x = (of_int ?m - x / 2 powi ?q) * 2 powi ?q"
    using p by (simp add: round_pos_def Let_def field_simps)
  then have "\<bar>round_pos x - x\<bar> = \<bar>of_int ?m - x / 2 powi ?q\<bar> * 2 powi ?q"
    using p by (simp add: abs_mult)
  also have "\<dots> \<le> (1 / 2) * 2 powi ?q"
    using round_half_even_error [of "x / 2 powi ?q"] p
    by (intro mult_right_mono) simp_all
  finally show ?thesis by simp
qed

lemma round_pos_le_pow2:
  assumes "0 < x" and "x \<le> 2 powi n" and "double_exponent x \<le> n"
  shows "round_pos x \<le> 2 powi n"
proof -
  let ?q = "double_exponent x"
  have p: "0 < (2::rat) powi ?q" by simp
  have split: "(2::rat) powi n = 2 powi (n - ?q) * 2 powi ?q"
    by (simp flip: power_int_add)
  have int: "(2::rat) powi (n - ?q) = of_int (2 ^ nat (n - ?q))"
    using assms(3) by (simp add: power_int_def)
  from assms(2) have "x / 2 powi ?q \<le> 2 powi (n - ?q)"
    using p by (simp add: split field_simps)
  then have "round_half_even (x / 2 powi ?q) \<le> round_half_even (of_int (2 ^ nat (n - ?q)))"
    unfolding int by (rule round_half_even_mono)
  then have "(of_int (round_half_even (x / 2 powi ?q)) :: rat) \<le> 2 powi (n - ?q)"
    unfolding int round_half_even_of_int by (simp only: of_int_le_iff)
  then have "(of_int (round_half_even (x / 2 powi ?q)) :: rat) * 2 powi ?q
               \<le> 2 powi (n - ?q) * 2 powi ?q"
    using p by (intro mult_right_mono) simp_all
  then show ?thesis unfolding split by (simp add: round_pos_def Let_def)
qed

lemma round_pos_ge_pow2:
  assumes "0 < x" and "2 powi n \<le> x" and "double_exponent x \<le> n"
  shows "2 powi n \<le> round_pos x"
proof -
  let ?q = "double_exponent x"
  have p: "0 < (2::rat) powi ?q" by simp
  have split: "(2::rat) powi n = 2 powi (n - ?q) * 2 powi ?q"
    by (simp flip: power_int_add)
  have int: "(2::rat) powi (n - ?q) = of_int (2 ^ nat (n - ?q))"
    using assms(3) by (simp add: power_int_def)
  from assms(2) have "2 powi (n - ?q) \<le> x / 2 powi ?q"
    using p by (simp add: split field_simps)
  then have "round_half_even (of_int (2 ^ nat (n - ?q))) \<le> round_half_even (x / 2 powi ?q)"
    unfolding int by (rule round_half_even_mono)
  then have "2 powi (n - ?q) \<le> (of_int (round_half_even (x / 2 powi ?q)) :: rat)"
    unfolding int round_half_even_of_int by (simp only: of_int_le_iff)
  then have "2 powi (n - ?q) * 2 powi ?q
               \<le> (of_int (round_half_even (x / 2 powi ?q)) :: rat) * 2 powi ?q"
    using p by (intro mult_right_mono) simp_all
  then show ?thesis unfolding split by (simp add: round_pos_def Let_def)
qed

lemma round_pos_mono:
  assumes "0 < x" and "x \<le> y"
  shows "round_pos x \<le> round_pos y"
proof -
  from assms have y: "0 < y" by simp
  have qq: "double_exponent x \<le> double_exponent y"
    using assms by (rule double_exponent_mono)
  show ?thesis
  proof (cases "double_exponent x = double_exponent y")
    case True
    let ?q = "double_exponent y"
    have p: "0 < (2::rat) powi ?q" by simp
    from assms(2) have "x / 2 powi ?q \<le> y / 2 powi ?q"
      using p by (simp add: divide_right_mono)
    then have "round_half_even (x / 2 powi ?q) \<le> round_half_even (y / 2 powi ?q)"
      by (rule round_half_even_mono)
    then have "(of_int (round_half_even (x / 2 powi ?q)) :: rat) * 2 powi ?q
                 \<le> of_int (round_half_even (y / 2 powi ?q)) * 2 powi ?q"
      using p by (intro mult_right_mono) simp_all
    then show ?thesis by (simp add: round_pos_def Let_def True)
  next
    case False
    with qq have lt: "double_exponent x < double_exponent y" by simp
    let ?k = "floor_log2 y"
    from lt have qy: "double_exponent y = ?k - 52"
      by (simp add: double_exponent_def max_def split: if_splits)
    from lt qy have kx: "floor_log2 x < ?k"
      by (simp add: double_exponent_def max_def split: if_splits)
    have "x < 2 powi (floor_log2 x + 1)" using floor_log2_bounds [OF assms(1)] by simp
    also have "\<dots> \<le> 2 powi ?k" using kx by (intro power_int_increasing) simp_all
    finally have xk: "x \<le> 2 powi ?k" by simp
    have "double_exponent x \<le> ?k" using lt qy by simp
    with assms(1) xk have a: "round_pos x \<le> 2 powi ?k" by (rule round_pos_le_pow2)
    have "2 powi ?k \<le> y" using floor_log2_bounds [OF y] by simp
    moreover have "double_exponent y \<le> ?k" using qy by simp
    ultimately have b: "2 powi ?k \<le> round_pos y" using y by (intro round_pos_ge_pow2)
    from a b show ?thesis by (rule order_trans)
  qed
qed

lemma round_signed_mono:
  assumes "x \<le> y"
  shows "round_signed x \<le> round_signed y"
proof -
  consider (pp) "0 < x" | (zz) "x = 0" | (nn) "x < 0" by linarith
  then show ?thesis
  proof cases
    case pp
    with assms have "0 < y" by simp
    with pp assms show ?thesis by (simp add: round_signed_def round_pos_mono)
  next
    case zz
    with assms have "y = 0 \<or> 0 < y" by auto
    with zz show ?thesis by (auto simp add: round_signed_def round_pos_nonneg)
  next
    case nn
    then have rx: "round_signed x = - round_pos (- x)" and px: "0 \<le> round_pos (- x)"
      by (simp_all add: round_signed_def round_pos_nonneg)
    consider (p) "0 < y" | (z) "y = 0" | (n) "y < 0" by linarith
    then show ?thesis
    proof cases
      case p
      then have "0 \<le> round_signed y" by (simp add: round_signed_def round_pos_nonneg)
      with rx px show ?thesis by simp
    next
      case z
      with rx px show ?thesis by (simp add: round_signed_def)
    next
      case n
      then have "round_pos (- y) \<le> round_pos (- x)"
        using assms by (intro round_pos_mono) simp_all
      with n rx show ?thesis by (simp add: round_signed_def)
    qed
  qed
qed

lemma round_double_mono_gt:
  assumes "x \<le> y" and "py_gt (round_double x) thr"
  shows "py_gt (round_double y) thr"
proof -
  from assms(1) have m: "round_signed x \<le> round_signed y" by (rule round_signed_mono)
  show ?thesis
  proof (cases thr)
    case (PyInt n)
    with assms(2) m show ?thesis
      by (auto simp add: round_double_def Let_def split: if_splits)
  next
    case (PyFloat d)
    with assms(2) m show ?thesis
      by (cases d) (auto simp add: round_double_def Let_def split: if_splits)
  qed
qed

lemma round_pos_of_int:
  assumes "0 < n" and "n < 2 ^ 53"
  shows "round_pos (of_int n) = of_int n"
proof -
  let ?q = "double_exponent (of_int n)"
  have pos: "0 < (of_int n :: rat)" using assms(1) by simp
  have "(of_int n :: rat) < 2 powi 53"
  proof -
    from assms(2) have "(of_int n :: rat) < of_int (2 ^ 53)" by (simp only: of_int_less_iff)
    then show ?thesis by simp
  qed
  with pos have "floor_log2 (of_int n) < 53" by (rule floor_log2_less)
  then have q0: "?q \<le> 0" by (simp add: double_exponent_def)
  then have "(2::rat) powi ?q = 1 / 2 ^ nat (- ?q)"
    by (simp add: power_int_def field_simps)
  then have scaled: "of_int n / 2 powi ?q = (of_int (n * 2 ^ nat (- ?q)) :: rat)"
    and unscale: "(of_int (n * 2 ^ nat (- ?q)) :: rat) * 2 powi ?q = of_int n"
    by simp_all
  show ?thesis
    unfolding round_pos_def Let_def scaled round_half_even_of_int unscale ..
qed

lemma round_signed_of_int:
  assumes "\<bar>n\<bar> < 2 ^ 53"
  shows "round_signed (of_int n) = of_int n"
proof -
  consider (p) "0 < n" | (z) "n = 0" | (m) "n < 0" by linarith
  then show ?thesis
  proof cases
    case p
    with assms show ?thesis by (simp add: round_signed_def round_pos_of_int)
  next
    case z
    then show ?thesis by (simp add: round_signed_def)
  next
    case m
    with assms have "0 < - n" "- n < 2 ^ 53" by simp_all
    then have "round_pos (of_int (- n)) = of_int (- n)" by (rule round_pos_of_int)
    with m show ?thesis by (simp add: round_signed_def)
  qed
qed

lemma round_double_of_int:
  assumes "\<bar>n\<bar> < 2 ^ 53"
  shows "round_double (of_int n) = Finite (of_int n)"
proof -
  have big: "(2::rat) ^ 53 \<le> 2 powi 1024" by (simp add: power_int_def)
  from assms have "\<bar>of_int n :: rat\<bar> < of_int (2 ^ 53)"
    by (simp only: of_int_abs [symmetric] of_int_less_iff)
  then have "\<bar>of_int n :: rat\<bar> < 2 powi 1024" using big by simp
  then show ?thesis
    by (simp add: round_double_def Let_def round_signed_of_int [OF assms] abs_less_iff not_le)
qed

lemma round_pos_error_small:
  assumes "0 < x" and "x < 2 powi 34"
  shows "\<bar>round_pos x - x\<bar> \<le> 1 / 2 ^ 20"
proof -
  from assms have "floor_log2 x < 34" by (rule floor_log2_less)
  then have "double_exponent x \<le> - 19" by (simp add: double_exponent_def)
  then have "(2::rat) powi (double_exponent x) \<le> 2 powi (- 19)"
    by (rule power_int_increasing) simp
  then have "(2::rat) powi (double_exponent x) / 2 \<le> 2 powi (- 19) / 2" by simp
  also have "\<dots> = 1 / 2 ^ 20" by (simp add: power_int_minus)
  finally show ?thesis using round_pos_error [OF assms(1)] by linarith
qed

lemma round_signed_error_small:
  assumes "\<bar>x\<bar> < 2 powi 34"
  shows "\<bar>round_signed x - x\<bar> \<le> 1 / 2 ^ 20"
proof -
  consider (p) "0 < x" | (z) "x = 0" | (n) "x < 0" by linarith
  then show ?thesis
  proof cases
    case p
    with assms round_pos_error_small [of x] show ?thesis by (simp add: round_signed_def)
  next
    case z
    then show ?thesis by (simp add: round_signed_def)
  next
    case n
    with assms have "0 < - x" "- x < 2 powi 34" by simp_all
    then have "\<bar>round_pos (- x) - (- x)\<bar> \<le> 1 / 2 ^ 20" by (rule round_pos_error_small)
    moreover from n have "round_signed x = - round_pos (- x)" by (simp add: round_signed_def)
    ultimately show ?thesis by linarith
  qed
qed

lemma round_double_small:
  assumes "\<bar>x\<bar> < 2 powi 34"
  shows "round_double x = Finite (round_signed x)"
proof -
  have "\<bar>round_signed x\<bar> \<le> \<bar>x\<bar> + 1 / 2 ^ 20"
    using round_signed_error_small [OF assms] by linarith
  also have "\<dots> < 2 powi 34 + 1" using assms by simp
  also have "\<dots> < 2 powi 1024" by (simp add: power_int_def)
  finally have "\<bar>round_signed x\<bar> < 2 powi 1024" .
  then show ?thesis by (simp add: round_double_def Let_def abs_less_iff not_le)
qed

lemma total_seconds_gt_int_exact:
  assumes "\<bar>d\<bar> < 2 ^ 34 * 1000000"
  shows "double_gt_int (total_seconds d) T \<longleftrightarrow> T * 1000000 < d"
proof -
  let ?x = "of_int d / 1000000 :: rat"
  have xs: "\<bar>?x\<bar> < 2 powi 34"
  proof -
    from assms have "(of_int \<bar>d\<bar> :: rat) < of_int (2 ^ 34 * 1000000)"
      by (simp only: of_int_less_iff)
    then show ?thesis by (simp add: field_simps)
  qed
  have fin: "total_seconds d = Finite (round_signed ?x)"
    unfolding total_seconds_def using xs by (rule round_double_small)
  have err: "\<bar>round_signed ?x - ?x\<bar> \<le> 1 / 2 ^ 20"
    using xs by (rule round_signed_error_small)
  have small: "(1::rat) / 2 ^ 20 < 1 / 1000000" by simp
  have gt: "double_gt_int (total_seconds d) T \<longleftrightarrow> of_int T < round_signed ?x"
    by (simp add: fin)
  consider (above) "T * 1000000 < d" | (equal) "d = T * 1000000" | (below) "d < T * 1000000"
    by linarith
  then show ?thesis
  proof cases
    case above
    then have "T * 1000000 + 1 \<le> d" by simp
    then have "(of_int (T * 1000000 + 1) :: rat) \<le> of_int d" by (simp only: of_int_le_iff)
    then have "of_int T + 1 / 1000000 \<le> ?x" by (simp add: field_simps)
    with err small have "of_int T < round_signed ?x" by linarith
    with above gt show ?thesis by simp
  next
    case equal
    then have x: "?x = of_int T" by simp
    from assms equal have "\<bar>T\<bar> < 2 ^ 34" by (simp add: abs_mult)
    then have "\<bar>T\<bar> < 2 ^ 53" by simp
    then have "round_signed (of_int T) = of_int T" by (rule round_signed_of_int)
    with x equal gt show ?thesis by simp
  next
    case below
    then have "d + 1 \<le> T * 1000000" by simp
    then have "(of_int (d + 1) :: rat) \<le> of_int (T * 1000000)" by (simp only: of_int_le_iff)
    then have "?x \<le> of_int T - 1 / 1000000" by (simp add: field_simps)
    with err small have "round_signed ?x < of_int T" by linarith
    with below gt show ?thesis by simp
  qed
qed

lemma round_double_numeral:
  "(numeral w :: int) < 2 ^ 53 \<Longrightarrow> round_double (numeral w) = Finite (numeral w)"
  using round_double_of_int [of "numeral w"] by simp

lemma round_pos_eval:
  assumes "0 < x" and "2 powi k \<le> x" and "x < 2 powi (k + 1)"
  shows "round_pos x =
           of_int (round_half_even (x / 2 powi max (k - 52) (- 1074))) * 2 powi max (k - 52) (- 1074)"
proof -
  from assms(1,2) have "k \<le> floor_log2 x" by (rule floor_log2_ge)
  moreover from assms(1,3) have "floor_log2 x < k + 1" by (rule floor_log2_less)
  ultimately have "floor_log2 x = k" by simp
  then show ?thesis by (simp add: round_pos_def double_exponent_def Let_def)
qed

lemma floor_rat_numeral:
  "\<lfloor>(numeral a :: rat) / numeral b\<rfloor> = numeral a div numeral b"
  using floor_divide_of_int_eq [of "numeral a" "numeral b", where ?'a = rat] by simp

lemma round_double_elapsed: "round_double (17179869600000001 / 1000000) = Finite 17179869600"
proof -
  have "round_pos (17179869600000001 / 1000000) = 17179869600"
    by (subst round_pos_eval [where k = 34]) (simp_all add: round_half_even_def Let_def floor_rat_numeral)
  then show ?thesis by (simp add: round_double_def round_signed_def Let_def)
qed

lemma round_double_three_tenths: "round_double (3 / 10) = Finite (5404319552844595 / 18014398509481984)"
proof -
  have "round_pos (3 / 10) = 5404319552844595 / 18014398509481984"
    by (subst round_pos_eval [where k = "- 2"]) (simp_all add: round_half_even_def Let_def floor_rat_numeral)
  then show ?thesis by (simp add: round_double_def round_signed_def Let_def)
qed

lemma round_double_eighteen: "round_double (81064793292668925 / 4503599627370496) = Finite 18"
proof -
  have "round_pos (81064793292668925 / 4503599627370496) = 18"
    by (subst round_pos_eval [where k = 4]) (simp_all add: round_half_even_def Let_def floor_rat_numeral)
  then show ?thesis by (simp add: round_double_def round_signed_def Let_def)
qed

section \<open>Properties of the backoff policy\<close>

lemma should_submit_later:
  "should_submit st t1 item \<Longrightarrow> t1 \<le> t2 \<Longrightarrow> should_submit st t2 item"
proof (cases "scraped_at item")
  case None
  then show ?thesis by (simp add: should_submit_def)
next
  case (Some t0)
  assume le: "t1 \<le> t2" and s1: "should_submit st t1 item"
  from le have "(of_int (t1 - t0) :: rat) / 1000000 \<le> of_int (t2 - t0) / 1000000"
    by (simp add: divide_right_mono)
  moreover from s1 Some
  have "py_gt (round_double (of_int (t1 - t0) / 1000000)) (scrape_time st (scraped_times item))"
    by (simp add: should_submit_def total_seconds_def)
  ultimately
  have "py_gt (round_double (of_int (t2 - t0) / 1000000)) (scrape_time st (scraped_times item))"
    by (rule round_double_mono_gt)
  with Some show ?thesis by (simp add: should_submit_def total_seconds_def)
qed


text \<open>
  C1, as stated, fails where the rounding of the two numbers decides. With
  \<open>after_10 = 4772186\<close> and 11 attempts the interval is 17179869600 seconds; one
  microsecond later the elapsed time exceeds it, but \<open>total_seconds()\<close> rounds it to
  17179869600.0 and \<open>should_submit\<close> is false. With \<open>after_2 = 0.3\<close>, the double just below
  three tenths, and 2 attempts, \<open>0.3 * 60 * 60\<close> is rounded up to 1080.0; after 1080
  seconds the elapsed time exceeds \<open>after_2\<close> hours, and \<open>should_submit\<close> is false.
\<close>

theorem should_submit_rounding:
  "\<not> should_submit \<lparr>after_2 = PyInt 2, after_5 = PyInt 6, after_10 = PyInt 4772186\<rparr>
        17179869600000001
        \<lparr>state = Requested, last_state = Requested, is_released = True,
         scraped_at = Some 0, scraped_times = 11, streams = []\<rparr>
   \<and> (4772186 * 3600 :: rat) < 17179869600000001 / 1000000
   \<and> \<not> should_submit
        \<lparr>after_2 = PyFloat (round_double (3 / 10)), after_5 = PyInt 6, after_10 = PyInt 24\<rparr>
        1080000000
        \<lparr>state = Requested, last_state = Requested, is_released = True,
         scraped_at = Some 0, scraped_times = 2, streams = []\<rparr>
   \<and> round_double (3 / 10) = Finite (5404319552844595 / 18014398509481984)
   \<and> (5404319552844595 / 18014398509481984 * 3600 :: rat) < 1080000000 / 1000000"
  by (simp add: should_submit_def scrape_time_def total_seconds_def round_double_elapsed round_double_three_tenths round_double_eighteen round_double_numeral)



text \<open>
  C5. \<open>can_we_scrape\<close> is the conjunction of the two tests: it returns true exactly when
  the item is released and \<open>should_submit\<close> holds, and false when either fails.
\<close>

theorem can_we_scrape_iff:
  "can_we_scrape st now item = (is_released item \<and> should_submit st now item)"
  by (simp add: can_we_scrape_def)

theorem can_we_scrape_iff_witness:
  "can_we_scrape \<lparr>after_2 = PyInt 2, after_5 = PyInt 6, after_10 = PyInt 24\<rparr> 5
       \<lparr>state = Requested, last_state = Requested, is_released = True,
        scraped_at = None, scraped_times = 0, streams = []\<rparr>
   \<and> \<not> can_we_scrape \<lparr>after_2 = PyInt 2, after_5 = PyInt 6, after_10 = PyInt 24\<rparr> 5
       \<lparr>state = Requested, last_state = Requested, is_released = False,
        scraped_at = None, scraped_times = 0, streams = []\<rparr>
   \<and> \<not> can_we_scrape \<lparr>after_2 = PyInt 2, after_5 = PyInt 6, after_10 = PyInt 24\<rparr> 5
       \<lparr>state = Requested, last_state = Requested, is_released = True,
        scraped_at = Some 4, scraped_times = 0, streams = []\<rparr>"
  using can_we_scrape_iff [of "\<lparr>after_2 = PyInt 2, after_5 = PyInt 6, after_10 = PyInt 24\<rparr>" 5
       "\<lparr>state = Requested, last_state = Requested, is_released = True,
        scraped_at = None, scraped_times = 0, streams = []\<rparr>"]
    can_we_scrape_iff [of "\<lparr>after_2 = PyInt 2, after_5 = PyInt 6, after_10 = PyInt 24\<rparr>" 5
       "\<lparr>state = Requested, last_state = Requested, is_released = False,
        scraped_at = None, scraped_times = 0, streams = []\<rparr>"]
    can_we_scrape_iff [of "\<lparr>after_2 = PyInt 2, after_5 = PyInt 6, after_10 = PyInt 24\<rparr>" 5
       "\<lparr>state = Requested, last_state = Requested, is_released = True,
        scraped_at = Some 4, scraped_times = 0, streams = []\<rparr>"]
  by (simp add: should_submit_def scrape_time_def total_seconds_gt_int_exact)

text \<open>
  C9. With \<open>scraped_at\<close> and \<open>scraped_times\<close> fixed, \<open>should_submit\<close> is monotone in the
  clock: if it holds at \<open>t1\<close> it holds at every later \<open>t2\<close>.
\<close>

theorem should_submit_monotone:
  assumes "t1 \<le> t2" and "should_submit st t1 item"
  shows "should_submit st t2 item"
  using assms should_submit_later by blast

theorem should_submit_monotone_witness:
  "(400000000::int) \<le> 900000000
   \<and> should_submit \<lparr>after_2 = PyInt 2, after_5 = PyInt 6, after_10 = PyInt 24\<rparr> 400000000
       \<lparr>state = Requested, last_state = Requested, is_released = True,
        scraped_at = Some 0, scraped_times = 1, streams = []\<rparr>
   \<and> should_submit \<lparr>after_2 = PyInt 2, after_5 = PyInt 6, after_10 = PyInt 24\<rparr> 900000000
       \<lparr>state = Requested, last_state = Requested, is_released = True,
        scraped_at = Some 0, scraped_times = 1, streams = []\<rparr>"
proof -
  have le: "(400000000::int) \<le> 900000000" by simp
  have s1: "should_submit \<lparr>after_2 = PyInt 2, after_5 = PyInt 6, after_10 = PyInt 24\<rparr> 400000000
       \<lparr>state = Requested, last_state = Requested, is_released = True,
        scraped_at = Some 0, scraped_times = 1, streams = []\<rparr>"
    by (simp add: should_submit_def scrape_time_def total_seconds_gt_int_exact)
  from should_submit_monotone [OF le s1] le s1 show ?thesis by simp
qed

section \<open>Properties of the hierarchy walker\<close>

lemma fold_partial_step:
  "fold partial_step ss res =
     res @ concat (map (\<lambda>s.
        if \<forall>e \<in> set (episodes s). is_released e \<and> state e \<noteq> Completed
        then [ASeason s]
        else map AnEpisode (filter (\<lambda>e. is_released e \<and> state e \<noteq> Completed) (episodes s))) ss)"
  by (induction ss arbitrary: res) (simp_all add: partial_step_def list_all_iff)

lemma last_state_truncate [simp]:
  "last_state (MediaItem.truncate x) = last_state x"
  by (simp add: MediaItem.truncate_def)

lemma can_we_scrape_truncate [simp]:
  "can_we_scrape st now (MediaItem.truncate x) = can_we_scrape st now x"
  by (simp add: can_we_scrape_def should_submit_def MediaItem.truncate_def split: option.splits)

text \<open>
  C3. \<open>partial_state\<close> returns \<open>False\<close> unless \<open>last_state\<close> is \<open>PartiallyCompleted\<close> and
  \<open>can_we_scrape\<close> fails. Past that test, a show yields, for each of its seasons that is
  not completed, released and passes \<open>should_submit\<close>, in order: the season itself when
  every episode of it is released and not completed, otherwise its released, not completed
  episodes; a season yields all its released episodes.
\<close>

theorem partial_state_frontier:
  "(last_state (media it) \<noteq> PartiallyCompleted \<or> can_we_scrape st now (media it)
      \<longrightarrow> partial_state st now it = ReturnsFalse)
   \<and> (last_state sh = PartiallyCompleted \<and> \<not> can_we_scrape st now sh \<longrightarrow>
        partial_state st now (AShow sh) =
          ReturnsList (concat (map (\<lambda>s.
              if \<forall>e \<in> set (episodes s). is_released e \<and> state e \<noteq> Completed
              then [ASeason s]
              else map AnEpisode
                     (filter (\<lambda>e. is_released e \<and> state e \<noteq> Completed) (episodes s)))
            (filter (\<lambda>s. state s \<noteq> Completed \<and> is_released s \<and> should_submit st now s)
               (seasons sh)))))
   \<and> (last_state se = PartiallyCompleted \<and> \<not> can_we_scrape st now se \<longrightarrow>
        partial_state st now (ASeason se) =
          ReturnsList (map AnEpisode (filter is_released (episodes se))))"
proof (intro conjI impI)
  assume "last_state (media it) \<noteq> PartiallyCompleted \<or> can_we_scrape st now (media it)"
  then show "partial_state st now it = ReturnsFalse"
    by (simp add: partial_state_def)
next
  assume "last_state sh = PartiallyCompleted \<and> \<not> can_we_scrape st now sh"
  then show "partial_state st now (AShow sh) =
          ReturnsList (concat (map (\<lambda>s.
              if \<forall>e \<in> set (episodes s). is_released e \<and> state e \<noteq> Completed
              then [ASeason s]
              else map AnEpisode
                     (filter (\<lambda>e. is_released e \<and> state e \<noteq> Completed) (episodes s)))
            (filter (\<lambda>s. state s \<noteq> Completed \<and> is_released s \<and> should_submit st now s)
               (seasons sh))))"
    by (simp add: partial_state_def fold_partial_step)
next
  assume "last_state se = PartiallyCompleted \<and> \<not> can_we_scrape st now se"
  then show "partial_state st now (ASeason se) =
          ReturnsList (map AnEpisode (filter is_released (episodes se)))"
    by (simp add: partial_state_def)
qed

theorem partial_state_frontier_witness:
  "partial_state example_settings 60000000 (AMovie (example_leaf PartiallyCompleted True))
     = ReturnsFalse
   \<and> partial_state example_settings 60000000 (AShow example_show)
     = ReturnsList [ASeason example_season_A, AnEpisode (example_leaf Requested True)]
   \<and> partial_state example_settings 60000000 (ASeason example_partial_season)
     = ReturnsList [AnEpisode (example_leaf Completed True),
                    AnEpisode (example_leaf Requested True)]"
  using partial_state_frontier [of "AMovie (example_leaf PartiallyCompleted True)"
      example_settings 60000000 example_show example_partial_season]
  by (simp add: example_defs can_we_scrape_def should_submit_def scrape_time_def
      total_seconds_gt_int_exact)

text \<open>
  C10. For a movie or an episode whose \<open>last_state\<close> is \<open>PartiallyCompleted\<close> and that
  \<open>can_we_scrape\<close> rejects, \<open>partial_state\<close> returns the item itself, where a show or a
  season in the same situation gets a list: with \<open>False\<close> that makes three shapes of result.
\<close>

theorem partial_state_leaf:
  assumes "last_state (media it) = PartiallyCompleted"
    and "\<not> can_we_scrape st now (media it)"
  shows "((\<exists>m. it = AMovie m) \<or> (\<exists>e. it = AnEpisode e)
            \<longrightarrow> partial_state st now it = ReturnsItem it)
       \<and> ((\<exists>sh. it = AShow sh) \<or> (\<exists>se. it = ASeason se)
            \<longrightarrow> (\<exists>xs. partial_state st now it = ReturnsList xs))
       \<and> partial_state st now it \<noteq> ReturnsFalse"
  using assms by (cases it) (simp_all add: partial_state_def Let_def)

theorem partial_state_leaf_witness:
  "last_state (media (AnEpisode (example_scraped PartiallyCompleted))) = PartiallyCompleted
   \<and> \<not> can_we_scrape example_settings 60000000
         (media (AnEpisode (example_scraped PartiallyCompleted)))
   \<and> partial_state example_settings 60000000 (AnEpisode (example_scraped PartiallyCompleted))
       = ReturnsItem (AnEpisode (example_scraped PartiallyCompleted))
   \<and> last_state (media (AShow example_show)) = PartiallyCompleted
   \<and> \<not> can_we_scrape example_settings 60000000 (media (AShow example_show))
   \<and> (\<exists>xs. partial_state example_settings 60000000 (AShow example_show) = ReturnsList xs)"
proof -
  have l1: "last_state (media (AnEpisode (example_scraped PartiallyCompleted)))
              = PartiallyCompleted"
    by (simp add: example_defs)
  have c1: "\<not> can_we_scrape example_settings 60000000
               (media (AnEpisode (example_scraped PartiallyCompleted)))"
    by (simp add: example_defs can_we_scrape_def should_submit_def scrape_time_def
        total_seconds_gt_int_exact)
  have l2: "last_state (media (AShow example_show)) = PartiallyCompleted"
    by (simp add: example_defs)
  have c2: "\<not> can_we_scrape example_settings 60000000 (media (AShow example_show))"
    by (simp add: example_show_def example_settings_def can_we_scrape_def should_submit_def
        scrape_time_def total_seconds_gt_int_exact MediaItem.truncate_def)
  from partial_state_leaf [OF l1 c1] partial_state_leaf [OF l2 c2] l1 c1 l2 c2
  show ?thesis by blast
qed

section \<open>Properties of the fan-out and merge\<close>

lemma dict_update_keys: "fst ` set (dict_update d other) = fst ` set d \<union> fst ` set other"
  unfolding dict_update_def
proof (induction other arbitrary: d)
  case Nil
  then show ?case by simp
next
  case (Cons q other)
  obtain k v where q: "q = (k, v)" by (cases q)
  have "fst ` set (fold (\<lambda>(k, v). AList.update k v) other (AList.update k v d))
          = fst ` set (AList.update k v d) \<union> fst ` set other"
    by (rule Cons.IH)
  then show ?case using q by (simp add: AList.dom_update)
qed

lemma dict_update_distinct:
  "distinct (map fst d) \<Longrightarrow> distinct (map fst (dict_update d other))"
  unfolding dict_update_def
  by (induction other arbitrary: d) (auto simp add: AList.distinct_update)

lemma update_entries:
  "p \<in> set (AList.update k v al) \<Longrightarrow> p = (k, v) \<or> p \<in> set al"
  by (induction al) (auto split: if_splits)

lemma dict_update_entries:
  "p \<in> set (dict_update d other) \<Longrightarrow> p \<in> set d \<or> p \<in> set other"
  unfolding dict_update_def
proof (induction other arbitrary: d)
  case Nil
  then show ?case by simp
next
  case (Cons q other)
  obtain k v where q: "q = (k, v)" by (cases q)
  from Cons.prems q have "p \<in> set (fold (\<lambda>(k, v). AList.update k v) other (AList.update k v d))"
    by simp
  from Cons.IH [OF this] show ?case
    using q by (auto dest: update_entries)
qed

lemma run_service_distinct:
  "distinct (map fst (fst acc)) \<Longrightarrow> distinct (map fst (fst (run_service r acc)))"
  by (cases r; cases acc) (simp_all add: dict_update_distinct)

lemma fold_run_service_distinct:
  "distinct (map fst (fst acc)) \<Longrightarrow> distinct (map fst (fst (fold run_service rs acc)))"
  by (induction rs arbitrary: acc) (simp_all add: run_service_distinct)

lemma mset_two:
  assumes "mset xs = mset [a, b]"
  shows "xs = [a, b] \<or> xs = [b, a]"
proof -
  from arg_cong [OF assms, of size] have "length xs = 2" by simp
  then obtain x y where xs: "xs = [x, y]"
    by (auto simp add: numeral_2_eq_2 length_Suc_conv)
  with assms show ?thesis
    by (auto simp add: add_eq_conv_ex)
qed

lemma fold_run_service_total:
  "snd (fold run_service rs acc) =
     snd acc + sum_list (map (\<lambda>r. case r of Inl e \<Rightarrow> 0 | Inr d \<Rightarrow> length d) rs)"
proof (induction rs arbitrary: acc)
  case Nil
  then show ?case by simp
next
  case (Cons r rs)
  show ?case by (cases r; cases acc) (simp_all add: Cons.IH)
qed

lemma fold_run_service_keys:
  "fst ` set (fst (fold run_service rs acc)) =
     fst ` set (fst acc) \<union> (\<Union>r \<in> set rs. case r of Inl e \<Rightarrow> {} | Inr d \<Rightarrow> fst ` set d)"
proof (induction rs arbitrary: acc)
  case Nil
  then show ?case by simp
next
  case (Cons r rs)
  show ?case by (cases r; cases acc) (auto simp add: Cons.IH dict_update_keys)
qed

lemma fold_run_service_entries:
  "p \<in> set (fst (fold run_service rs acc)) \<Longrightarrow>
     p \<in> set (fst acc) \<or> (\<exists>d. Inr d \<in> set rs \<and> p \<in> set d)"
proof (induction rs arbitrary: acc)
  case Nil
  then show ?case by simp
next
  case (Cons r rs)
  from Cons.IH [of "run_service r acc"] Cons.prems
  have "p \<in> set (fst (run_service r acc)) \<or> (\<exists>d. Inr d \<in> set rs \<and> p \<in> set d)"
    by simp
  then show ?case
    by (cases r; cases acc) (auto dest: dict_update_entries)
qed

lemma scrape_results:
  "results (scrape env sched item logging) =
     fst (fold run_service (map (\<lambda>s. service_run s item) (sched (filter initialized (services env)))) ([], 0))"
  by (simp add: scrape_def Let_def comp_def)

lemma scrape_total:
  "total_results (scrape env sched item logging) =
     snd (fold run_service (map (\<lambda>s. service_run s item) (sched (filter initialized (services env)))) ([], 0))"
  by (simp add: scrape_def Let_def comp_def)

lemma scrape_sorted_streams:
  "sorted_streams (scrape env sched item logging) =
     parse_results env item (results (scrape env sched item logging)) logging"
  by (simp add: scrape_def Let_def)

lemma scrape_log_cases:
  "scrape_log (scrape env sched item logging) =
     (if int (total_results (scrape env sched item logging))
           \<noteq> int (length (results (scrape env sched item logging)))
      then [RemovedDuplicates (total_results (scrape env sched item logging))
              (int (total_results (scrape env sched item logging))
                - int (length (results (scrape env sched item logging))))]
      else [])
     @ (case sorted_streams (scrape env sched item logging) of
          Inl e \<Rightarrow> []
        | Inr ss \<Rightarrow> if ss \<noteq> [] \<and> (logging \<and> debug (settings env))
                    then map Parsed (take 10 (map snd ss)) else [])"
  by (simp add: scrape_def Let_def split: sum.splits)

text \<open>
  C4. The dictionary that \<open>scrape\<close> hands to \<open>_parse_results\<close> has every key once,
  whatever the services return and in whatever order their threads merge. The count of
  offered pairs is the sum of the sizes of the returned dictionaries, and a logged
  duplicate count is that total minus the size of the merged dictionary (the message is
  logged exactly when the two differ). Two services that each offer one result under the
  same key merge to one entry, with 1 duplicate reported.
\<close>

theorem scrape_merge_dedup:
  "distinct (map fst (results (scrape env sched item logging)))
   \<and> sorted_streams (scrape env sched item logging)
       = parse_results env item (results (scrape env sched item logging)) logging
   \<and> total_results (scrape env sched item logging)
       = sum_list (map (\<lambda>s. case service_run s item of Inl e \<Rightarrow> 0 | Inr d \<Rightarrow> length d)
                    (sched (filter initialized (services env))))
   \<and> (\<forall>n d. RemovedDuplicates n d \<in> set (scrape_log (scrape env sched item logging)) \<longrightarrow>
         n = total_results (scrape env sched item logging)
         \<and> d = int (total_results (scrape env sched item logging))
               - int (length (results (scrape env sched item logging))))
   \<and> (total_results (scrape env sched item logging)
         \<noteq> length (results (scrape env sched item logging)) \<longrightarrow>
       RemovedDuplicates (total_results (scrape env sched item logging))
         (int (total_results (scrape env sched item logging))
           - int (length (results (scrape env sched item logging))))
         \<in> set (scrape_log (scrape env sched item logging)))
   \<and> (filter initialized (services env) = [a, b] \<and> mset (sched [a, b]) = mset [a, b]
        \<and> service_run a item = Inr [(k, v)] \<and> service_run b item = Inr [(k, w)] \<longrightarrow>
       map fst (results (scrape env sched item logging)) = [k]
       \<and> RemovedDuplicates 2 1 \<in> set (scrape_log (scrape env sched item logging)))"
proof (intro conjI allI impI)
  show "distinct (map fst (results (scrape env sched item logging)))"
    by (simp add: scrape_results fold_run_service_distinct)
  show "sorted_streams (scrape env sched item logging)
       = parse_results env item (results (scrape env sched item logging)) logging"
    by (rule scrape_sorted_streams)
  show "total_results (scrape env sched item logging)
       = sum_list (map (\<lambda>s. case service_run s item of Inl e \<Rightarrow> 0 | Inr d \<Rightarrow> length d)
                    (sched (filter initialized (services env))))"
    by (simp add: scrape_total fold_run_service_total comp_def)
next
  fix n d
  assume "RemovedDuplicates n d \<in> set (scrape_log (scrape env sched item logging))"
  then show "n = total_results (scrape env sched item logging)"
    and "d = int (total_results (scrape env sched item logging))
               - int (length (results (scrape env sched item logging)))"
    by (auto simp add: scrape_log_cases split: if_splits sum.splits)
next
  assume "total_results (scrape env sched item logging)
         \<noteq> length (results (scrape env sched item logging))"
  then show "RemovedDuplicates (total_results (scrape env sched item logging))
         (int (total_results (scrape env sched item logging))
           - int (length (results (scrape env sched item logging))))
         \<in> set (scrape_log (scrape env sched item logging))"
    by (simp add: scrape_log_cases)
next
  assume h: "filter initialized (services env) = [a, b] \<and> mset (sched [a, b]) = mset [a, b]
        \<and> service_run a item = Inr [(k, v)] \<and> service_run b item = Inr [(k, w)]"
  then have "sched [a, b] = [a, b] \<or> sched [a, b] = [b, a]"
    by (simp add: mset_two)
  with h have r: "map fst (results (scrape env sched item logging)) = [k]"
    and t: "total_results (scrape env sched item logging) = 2"
    by (auto simp add: scrape_results scrape_total dict_update_def)
  from r show "map fst (results (scrape env sched item logging)) = [k]" .
  from r have "length (results (scrape env sched item logging)) = 1"
    by (metis length_map length_Cons list.size(3) One_nat_def)
  with t show "RemovedDuplicates 2 1 \<in> set (scrape_log (scrape env sched item logging))"
    by (simp add: scrape_log_cases)
qed

theorem scrape_merge_dedup_witness:
  "results (scrape (example_env example_two) rev (example_leaf Requested True) True)
     = [(''X'', ''first title'')]
   \<and> scrape_log (scrape (example_env example_two) rev (example_leaf Requested True) True)
     = [RemovedDuplicates 2 1]
   \<and> total_results (scrape (example_env example_two) rev (example_leaf Requested True) True) = 2"
  using scrape_merge_dedup [of "example_env example_two" rev "example_leaf Requested True" True
      "example_service ''Torrentio'' True (Inr [(''X'', ''first title'')])"
      "example_service ''Zilean'' True (Inr [(''X'', ''second title'')])"
      "''X''" "''first title''" "''second title''"]
  by (simp add: env_defs scrape_def dict_update_def)

text \<open>
  C7, as stated, fails on the logging: with three initialised services of which the second
  raises, \<open>scrape\<close> returns the ranking of the other two services' results and logs
  nothing. The exception ends the worker thread only; it is left to the interpreter's
  thread exception hook and appears in no message of the module.
\<close>

theorem scrape_failing_backend_silent:
  "scrape_log (scrape (example_env example_three) id (example_leaf Requested True) True) = []
   \<and> sorted_streams (scrape (example_env example_three) id (example_leaf Requested True) True)
       = Inr [(''A'', \<lparr>infohash = ''A'', raw_title = ''one'', parsed_title = ''one'', rank = 0\<rparr>),
              (''B'', \<lparr>infohash = ''B'', raw_title = ''two'', parsed_title = ''two'', rank = 0\<rparr>),
              (''C'', \<lparr>infohash = ''C'', raw_title = ''three'', parsed_title = ''three'', rank = 0\<rparr>)]
   \<and> thread_exceptions (scrape (example_env example_three) id (example_leaf Requested True) True)
       = [(''Knightcrawler'', Exn ''connection refused'')]"
  by (simp add: env_defs scrape_def dict_update_def)


lemma fold_run_service_exceptions:
  "set (concat (map (\<lambda>(n, r). case r of Inl e \<Rightarrow> [(n, e)] | Inr d \<Rightarrow> []) outs))
     = {(n, e). (n, Inl e) \<in> set outs}"
  by (induction outs) (auto split: sum.splits)

lemma scrape_thread_exceptions:
  "thread_exceptions (scrape env sched item logging) =
     concat (map (\<lambda>(n, r). case r of Inl e \<Rightarrow> [(n, e)] | Inr d \<Rightarrow> [])
       (map (\<lambda>s. (service_name s, service_run s item))
          (sched (filter initialized (services env)))))"
  by (simp add: scrape_def Let_def)

text \<open>
  C7, amended. When some of the initialised services raise, \<open>scrape\<close> still hands the
  merge of the other services' results to \<open>_parse_results\<close> and returns its answer:
  the keys of the merged dictionary are the keys the returning services offered, every
  entry was offered by one of them, and no exception of a service reaches the caller.
  The exceptions end their worker threads; \<open>scrape\<close> logs no message about them (its
  only messages are the duplicate count and the parsed streams).
\<close>

theorem scrape_tolerates_failing_backend:
  assumes "mset (sched (filter initialized (services env))) = mset (filter initialized (services env))"
  shows "sorted_streams (scrape env sched item logging)
           = parse_results env item (results (scrape env sched item logging)) logging
     \<and> fst ` set (results (scrape env sched item logging))
           = (\<Union>s \<in> set (filter initialized (services env)).
                 case service_run s item of Inl e \<Rightarrow> {} | Inr d \<Rightarrow> fst ` set d)
     \<and> (\<forall>p \<in> set (results (scrape env sched item logging)).
           \<exists>s \<in> set (filter initialized (services env)).
             \<exists>d. service_run s item = Inr d \<and> p \<in> set d)
     \<and> set (thread_exceptions (scrape env sched item logging))
           = {(n, e). \<exists>s \<in> set (filter initialized (services env)).
                        n = service_name s \<and> service_run s item = Inl e}
     \<and> (\<forall>m \<in> set (scrape_log (scrape env sched item logging)).
           (\<exists>n d. m = RemovedDuplicates n d) \<or> (\<exists>x. m = Parsed x))"
proof -
  from assms have same: "set (sched (filter initialized (services env)))
                          = set (filter initialized (services env))"
    by (rule mset_eq_setD)
  have keys: "fst ` set (results (scrape env sched item logging))
           = (\<Union>s \<in> set (filter initialized (services env)).
                 case service_run s item of Inl e \<Rightarrow> {} | Inr d \<Rightarrow> fst ` set d)"
    by (simp add: scrape_results fold_run_service_keys same)
  have entries: "\<forall>p \<in> set (results (scrape env sched item logging)).
           \<exists>s \<in> set (filter initialized (services env)).
             \<exists>d. service_run s item = Inr d \<and> p \<in> set d"
  proof
    fix p
    assume "p \<in> set (results (scrape env sched item logging))"
    then have "p \<in> set (fst (fold run_service (map (\<lambda>s. service_run s item)
                     (sched (filter initialized (services env)))) ([], 0)))"
      by (simp add: scrape_results)
    from fold_run_service_entries [OF this]
    obtain d where d: "Inr d \<in> (\<lambda>s. service_run s item) `
                         set (sched (filter initialized (services env)))" "p \<in> set d"
      by auto
    then obtain s where "s \<in> set (sched (filter initialized (services env)))"
      and "service_run s item = Inr d"
      by auto
    with same d show "\<exists>s \<in> set (filter initialized (services env)).
             \<exists>d. service_run s item = Inr d \<and> p \<in> set d"
      by blast
  qed
  have "set (thread_exceptions (scrape env sched item logging))
           = {(n, e). (n, Inl e) \<in> (\<lambda>s. (service_name s, service_run s item)) `
                         set (sched (filter initialized (services env)))}"
    by (simp only: scrape_thread_exceptions fold_run_service_exceptions set_map)
  also have "\<dots> = {(n, e). \<exists>s \<in> set (filter initialized (services env)).
                        n = service_name s \<and> service_run s item = Inl e}"
    unfolding same by auto
  finally have excs: "set (thread_exceptions (scrape env sched item logging))
           = {(n, e). \<exists>s \<in> set (filter initialized (services env)).
                        n = service_name s \<and> service_run s item = Inl e}" .
  have logs: "\<forall>m \<in> set (scrape_log (scrape env sched item logging)).
           (\<exists>n d. m = RemovedDuplicates n d) \<or> (\<exists>x. m = Parsed x)"
    unfolding scrape_log_cases by (auto split: sum.splits if_splits)
  show ?thesis
    using keys entries excs logs by (intro conjI) (rule scrape_sorted_streams)
qed

theorem scrape_tolerates_failing_backend_witness:
  "mset (rev (filter initialized (services (example_env example_three))))
     = mset (filter initialized (services (example_env example_three)))
   \<and> sorted_streams (scrape (example_env example_three) rev (example_leaf Requested True) True)
       = Inr [(''C'', \<lparr>infohash = ''C'', raw_title = ''three'', parsed_title = ''three'', rank = 0\<rparr>),
              (''A'', \<lparr>infohash = ''A'', raw_title = ''one'', parsed_title = ''one'', rank = 0\<rparr>),
              (''B'', \<lparr>infohash = ''B'', raw_title = ''two'', parsed_title = ''two'', rank = 0\<rparr>)]
   \<and> fst ` set (results (scrape (example_env example_three) rev (example_leaf Requested True) True))
       = {''A'', ''B'', ''C''}
   \<and> set (thread_exceptions
        (scrape (example_env example_three) rev (example_leaf Requested True) True))
       = {(''Knightcrawler'', Exn ''connection refused'')}
   \<and> scrape_log (scrape (example_env example_three) rev (example_leaf Requested True) True) = []"
proof -
  have p: "mset (rev (filter initialized (services (example_env example_three))))
     = mset (filter initialized (services (example_env example_three)))"
    by simp
  from scrape_tolerates_failing_backend
         [where sched = rev and env = "example_env example_three"
            and item = "example_leaf Requested True" and logging = True, OF p] p
  show ?thesis
    by (simp add: env_defs scrape_def dict_update_def insert_commute)
qed

section \<open>Properties of the submission\<close>







lemma run_closed:
  "\<not> can_we_scrape (scraping (settings env)) now item \<Longrightarrow>
     run env sched now now' item =
       \<lparr>yielded = Inr item, item_after = item,
        run_log = can_we_scrape_log (scraping (settings env)) now item
                   @ (if streams item = [] then [NotFound] else []),
        run_started = [], run_thread_exceptions = []\<rparr>"
  by (simp add: run_def)

lemma run_raised:
  "can_we_scrape (scraping (settings env)) now item \<Longrightarrow>
   sorted_streams (scrape env sched item True) = Inl e \<Longrightarrow>
     yielded (run env sched now now' item) = Inl e \<and> item_after (run env sched now now' item) = item"
  by (simp add: run_def Let_def)

lemma run_scraped:
  "can_we_scrape (scraping (settings env)) now item \<Longrightarrow>
   sorted_streams (scrape env sched item True) = Inr ss \<Longrightarrow>
     item_after (run env sched now now' item) =
       item\<lparr>streams := fold append_new (map snd ss) (streams item),
            scraped_at := Some now', scraped_times := scraped_times item + 1\<rparr>
     \<and> yielded (run env sched now now' item) = Inr (item_after (run env sched now now' item))"
  by (simp add: run_def Let_def)



lemma conflict_first:
  "item_after (run example_conflict id 5 9 (example_leaf Requested True))
     = \<lparr>state = Requested, last_state = Requested, is_released = True,
        scraped_at = Some 9, scraped_times = 1, streams = []\<rparr>"
  by (simp add: example_conflict_def title_ranker_def env_defs example_defs run_def scrape_def
      dict_update_def can_we_scrape_def should_submit_def Let_def)

text \<open>
  C2, as stated, fails when two backends offer one key with different payloads. Both
  calls of \<open>run\<close> pass \<open>can_we_scrape\<close> and both services return the same both times, but
  the threads merge in the other order on the second call: the first call ranks the
  payload \<open>bad\<close> and appends nothing, the second ranks \<open>good\<close> and appends a stream.
\<close>

theorem run_twice_merge_order:
  "can_we_scrape (scraping (settings example_conflict)) 5 (example_leaf Requested True)
   \<and> can_we_scrape (scraping (settings example_conflict)) 400000000
        (item_after (run example_conflict id 5 9 (example_leaf Requested True)))
   \<and> service_run (example_service ''Torrentio'' True (Inr [(''X'', ''good'')]))
         (item_after (run example_conflict id 5 9 (example_leaf Requested True)))
       = service_run (example_service ''Torrentio'' True (Inr [(''X'', ''good'')]))
           (example_leaf Requested True)
   \<and> service_run (example_service ''Zilean'' True (Inr [(''X'', ''bad'')]))
         (item_after (run example_conflict id 5 9 (example_leaf Requested True)))
       = service_run (example_service ''Zilean'' True (Inr [(''X'', ''bad'')]))
           (example_leaf Requested True)
   \<and> length (streams (item_after
         (run example_conflict id 5 9 (example_leaf Requested True)))) = 0
   \<and> length (streams (item_after
         (run example_conflict rev 400000000 400000009
            (item_after (run example_conflict id 5 9 (example_leaf Requested True)))))) = 1"
  unfolding conflict_first
  by (simp add: example_conflict_def title_ranker_def env_defs example_defs run_def scrape_def
      dict_update_def can_we_scrape_def should_submit_def scrape_time_def
      total_seconds_gt_int_exact append_new_def stream_in_def Let_def)




text \<open>
  C6. When \<open>_parse_results\<close> raises on the merged results, \<open>run\<close> raises that exception to
  its caller and the item is as it was before the call: \<open>scraped_at\<close>, \<open>scraped_times\<close>
  and \<open>streams\<close> keep their values. The item had passed \<open>can_we_scrape\<close>, so it passes it again at
  every later instant.
\<close>

theorem run_ranker_failure:
  assumes eligible: "can_we_scrape (scraping (settings env)) now item"
    and fails: "parse_results env item (results (scrape env sched item True)) True = Inl e"
  shows "yielded (run env sched now now' item) = Inl e
       \<and> item_after (run env sched now now' item) = item
       \<and> scraped_at (item_after (run env sched now now' item)) = scraped_at item
       \<and> scraped_times (item_after (run env sched now now' item)) = scraped_times item
       \<and> streams (item_after (run env sched now now' item)) = streams item
       \<and> (\<forall>t. now \<le> t \<longrightarrow>
             can_we_scrape (scraping (settings env)) t (item_after (run env sched now now' item)))"
proof -
  from fails have "sorted_streams (scrape env sched item True) = Inl e"
    by (simp add: scrape_sorted_streams)
  from run_raised [OF eligible this]
  have r: "yielded (run env sched now now' item) = Inl e"
    and u: "item_after (run env sched now now' item) = item"
    by simp_all
  have "\<forall>t. now \<le> t \<longrightarrow> can_we_scrape (scraping (settings env)) t item"
    using eligible should_submit_later [of "scraping (settings env)" now item]
    by (auto simp add: can_we_scrape_def split: if_splits)
  with r u show ?thesis by simp
qed

theorem run_ranker_failure_witness:
  "can_we_scrape (scraping (settings (example_env example_three\<lparr>parse_results := failing_ranker\<rparr>)))
      5 (example_leaf Requested True)
   \<and> yielded (run (example_env example_three\<lparr>parse_results := failing_ranker\<rparr>) id 5 9
        (example_leaf Requested True)) = Inl (Exn ''ranking failed'')
   \<and> item_after (run (example_env example_three\<lparr>parse_results := failing_ranker\<rparr>) id 5 9
        (example_leaf Requested True)) = example_leaf Requested True
   \<and> can_we_scrape (scraping (settings (example_env example_three\<lparr>parse_results := failing_ranker\<rparr>)))
        7 (item_after (run (example_env example_three\<lparr>parse_results := failing_ranker\<rparr>) id 5 9
             (example_leaf Requested True)))"
proof -
  have g: "can_we_scrape
             (scraping (settings (example_env example_three\<lparr>parse_results := failing_ranker\<rparr>)))
             5 (example_leaf Requested True)"
    by (simp add: env_defs example_defs can_we_scrape_def should_submit_def)
  have f: "parse_results (example_env example_three\<lparr>parse_results := failing_ranker\<rparr>)
             (example_leaf Requested True)
             (results (scrape (example_env example_three\<lparr>parse_results := failing_ranker\<rparr>) id
                (example_leaf Requested True) True)) True
           = Inl (Exn ''ranking failed'')"
    by (simp add: failing_ranker_def)
  have le: "(5::int) \<le> 7" by simp
  from run_ranker_failure [OF g f, of 9] g le show ?thesis by blast
qed

text \<open>
  C8. When \<open>can_we_scrape\<close> rejects the item, \<open>run\<close> starts no worker thread, so no service
  is asked; the item keeps \<open>streams\<close>, \<open>scraped_at\<close> and \<open>scraped_times\<close>, and it is the
  one value that \<open>run\<close> yields.
\<close>

theorem run_ineligible_unchanged:
  assumes "\<not> can_we_scrape (scraping (settings env)) now item"
  shows "run_started (run env sched now now' item) = []
       \<and> yielded (run env sched now now' item) = Inr item
       \<and> item_after (run env sched now now' item) = item
       \<and> streams (item_after (run env sched now now' item)) = streams item
       \<and> scraped_at (item_after (run env sched now now' item)) = scraped_at item
       \<and> scraped_times (item_after (run env sched now now' item)) = scraped_times item"
  using assms by (simp add: run_closed)

theorem run_ineligible_unchanged_witness:
  "\<not> can_we_scrape (scraping (settings (example_env example_three))) 60000000
       (example_scraped Requested)
   \<and> run_started (run (example_env example_three) id 60000000 60000009
        (example_scraped Requested)) = []
   \<and> yielded (run (example_env example_three) id 60000000 60000009
        (example_scraped Requested)) = Inr (example_scraped Requested)
   \<and> item_after (run (example_env example_three) id 60000000 60000009
        (example_scraped Requested)) = example_scraped Requested"
proof -
  have g: "\<not> can_we_scrape (scraping (settings (example_env example_three))) 60000000
       (example_scraped Requested)"
    by (simp add: env_defs example_defs can_we_scrape_def should_submit_def scrape_time_def
        total_seconds_gt_int_exact)
  from run_ineligible_unchanged [OF g, of id 60000009] g show ?thesis by simp
qed

end
